theory Spec2Isabelle
  imports Complex_Main "HOL-Library.Word"
begin

section \<open>Data model\<close>

text \<open>
  Both scripts hold the image as a numpy array of shape (height, width, 4) with
  element type uint8. A pixel is the record of its four channels; an image is the
  list of its rows. A mask is a boolean array of shape (height, width).
\<close>

type_synonym uint8 = "8 word"

record pixel =
  px_r :: uint8
  px_g :: uint8
  px_b :: uint8
  px_a :: uint8

type_synonym image = "pixel list list"
type_synonym mask = "bool list list"

text \<open>The exceptions the scripts can raise.\<close>

datatype error = IndexError | ValueError

text \<open>\<^verbatim>\<open>img_array[:, :, :3].astype(float)\<close> at one pixel.\<close>

definition rgb :: "pixel \<Rightarrow> real list" where
  "rgb p = [real (unat (px_r p)), real (unat (px_g p)), real (unat (px_b p))]"

definition mk_pixel :: "uint8 \<Rightarrow> uint8 \<Rightarrow> uint8 \<Rightarrow> uint8 \<Rightarrow> pixel" where
  "mk_pixel r g b a = \<lparr>px_r = r, px_g = g, px_b = b, px_a = a\<rparr>"

section \<open>extract-logo-advanced: foreground classifier\<close>

text \<open>
  \<^verbatim>\<open>white = np.array([255, 255, 255])\<close>,
  \<^verbatim>\<open>color_distance = np.sqrt(np.sum((rgb - white)**2, axis=2))\<close>,
  \<^verbatim>\<open>threshold = 50\<close>, \<^verbatim>\<open>mask = color_distance > threshold\<close>.
  The reference colour and the threshold are literals of the script; they are
  arguments here and the script's values are \<open>white\<close> and \<open>threshold\<close>.
  The float64 arithmetic is modelled in the reals: the sum of squares is an integer
  below \<open>2 ^ 53\<close>, so it is exact, and the square root is correctly rounded.
\<close>

definition white :: "real list" where
  "white = [255, 255, 255]"

definition threshold :: real where
  "threshold = 50"

definition color_distance :: "real list \<Rightarrow> pixel \<Rightarrow> real" where
  "color_distance ref p = sqrt (sum_list (map (\<lambda>(c, w). (c - w)\<^sup>2) (zip (rgb p) ref)))"

definition classify :: "real list \<Rightarrow> real \<Rightarrow> image \<Rightarrow> mask" where
  "classify ref t img_array = map (map (\<lambda>p. color_distance ref p > t)) img_array"

text \<open>
  The Euclidean distance between two colours, as the specification words it, on the
  three colour channels.
\<close>

definition euclidean_distance :: "real \<times> real \<times> real \<Rightarrow> real \<times> real \<times> real \<Rightarrow> real" where
  "euclidean_distance c d =
     (case c of (r, g, b) \<Rightarrow> case d of (r', g', b') \<Rightarrow>
        sqrt ((r - r')\<^sup>2 + (g - g')\<^sup>2 + (b - b')\<^sup>2))"

definition colour_of :: "pixel \<Rightarrow> real \<times> real \<times> real" where
  "colour_of p = (real (unat (px_r p)), real (unat (px_g p)), real (unat (px_b p)))"

section \<open>numpy helpers\<close>

text \<open>
  \<^verbatim>\<open>np.where(v)[0]\<close> on a one-dimensional boolean array: the indices of its true
  elements, ascending. \<^verbatim>\<open>np.where(a)\<close> on a two-dimensional one: the (row, column)
  positions of its true elements in row-major order (the script reads the rows as
  \<^verbatim>\<open>[0]\<close> and the columns as \<^verbatim>\<open>[1]\<close>).
\<close>

definition np_where1 :: "bool list \<Rightarrow> nat list" where
  "np_where1 v = filter (\<lambda>i. v ! i) [0..<length v]"

definition np_where2 :: "bool list list \<Rightarrow> (nat \<times> nat) list" where
  "np_where2 a =
     concat (map (\<lambda>i. map (\<lambda>j. (i, j)) (filter (\<lambda>j. a ! i ! j) [0..<length (a ! i)]))
                 [0..<length a])"

text \<open>\<^verbatim>\<open>a[y0:y1, x0:x1]\<close> for non-negative bounds: Python clips a slice to the array.\<close>

definition slice2 :: "'a list list \<Rightarrow> nat \<Rightarrow> nat \<Rightarrow> nat \<Rightarrow> nat \<Rightarrow> 'a list list" where
  "slice2 a y0 y1 x0 x1 = map (\<lambda>row. take (x1 - x0) (drop x0 row)) (take (y1 - y0) (drop y0 a))"

text \<open>
  \<^verbatim>\<open>int(x)\<close> on a float and \<^verbatim>\<open>.astype(np.uint8)\<close> on a float array both truncate
  towards zero; the cast to uint8 then keeps the low eight bits.
\<close>

definition py_int :: "real \<Rightarrow> int" where
  "py_int x = (if 0 \<le> x then \<lfloor>x\<rfloor> else \<lceil>x\<rceil>)"

definition astype_uint8 :: "real \<Rightarrow> uint8" where
  "astype_uint8 x = word_of_int (py_int x)"

definition np_clip :: "real \<Rightarrow> real \<Rightarrow> real \<Rightarrow> real" where
  "np_clip x lo hi = min (max x lo) hi"

section \<open>extract-logo-advanced: mask refiner\<close>

text \<open>
  \<^verbatim>\<open>ndimage.binary_opening(mask, structure=np.ones((3,3)))\<close> and
  \<^verbatim>\<open>ndimage.binary_closing(mask, structure=np.ones((3,3)))\<close>. scipy defines the
  opening as the dilation of the erosion and the closing as the erosion of the
  dilation, each with \<^verbatim>\<open>border_value=0\<close>: a position outside the array reads
  as false, and the result has the shape of the input. The structuring element is given
  by the offsets of its true entries from its centre.
\<close>

definition cell :: "mask \<Rightarrow> int \<Rightarrow> int \<Rightarrow> bool" where
  "cell m i j \<longleftrightarrow>
     0 \<le> i \<and> i < int (length m) \<and> 0 \<le> j \<and> j < int (length (m ! nat i)) \<and> m ! nat i ! nat j"

definition ones33 :: "(int \<times> int) list" where
  "ones33 = concat (map (\<lambda>di. map (\<lambda>dj. (di, dj)) [-1, 0, 1]) [-1, 0, 1])"

definition binary_erosion :: "(int \<times> int) list \<Rightarrow> mask \<Rightarrow> mask" where
  "binary_erosion strel m =
     map (\<lambda>i. map (\<lambda>j. list_all (\<lambda>(di, dj). cell m (int i + di) (int j + dj)) strel)
                   [0..<length (m ! i)])
         [0..<length m]"

definition binary_dilation :: "(int \<times> int) list \<Rightarrow> mask \<Rightarrow> mask" where
  "binary_dilation strel m =
     map (\<lambda>i. map (\<lambda>j. list_ex (\<lambda>(di, dj). cell m (int i - di) (int j - dj)) strel)
                   [0..<length (m ! i)])
         [0..<length m]"

definition binary_opening :: "(int \<times> int) list \<Rightarrow> mask \<Rightarrow> mask" where
  "binary_opening strel m = binary_dilation strel (binary_erosion strel m)"

definition binary_closing :: "(int \<times> int) list \<Rightarrow> mask \<Rightarrow> mask" where
  "binary_closing strel m = binary_erosion strel (binary_dilation strel m)"

definition refine :: "mask \<Rightarrow> mask" where
  "refine m = binary_closing ones33 (binary_opening ones33 m)"

section \<open>extract-logo-advanced: bounding box and crop rows\<close>

text \<open>
  \<^verbatim>\<open>rows = np.any(mask, axis=1)\<close>, \<^verbatim>\<open>cols = np.any(mask, axis=0)\<close>,
  \<^verbatim>\<open>ymin, ymax = np.where(rows)[0][[0, -1]]\<close> and the same for the columns.
  Indexing an empty array with \<^verbatim>\<open>[[0, -1]]\<close> raises IndexError.
\<close>

definition any_axis1 :: "mask \<Rightarrow> bool list" where
  "any_axis1 m = map (\<lambda>row. list_ex (\<lambda>b. b) row) m"

definition any_axis0 :: "mask \<Rightarrow> bool list" where
  "any_axis0 m =
     map (\<lambda>j. list_ex (\<lambda>row. row ! j) m) [0..<(case m of [] \<Rightarrow> 0 | row # _ \<Rightarrow> length row)]"

definition first_last :: "nat list \<Rightarrow> error + nat \<times> nat" where
  "first_last idx = (case idx of [] \<Rightarrow> Inl IndexError | x # xs \<Rightarrow> Inr (x, last (x # xs)))"

definition bounding_box :: "mask \<Rightarrow> error + nat \<times> nat \<times> nat \<times> nat" where
  "bounding_box m =
     (case first_last (np_where1 (any_axis1 m)) of
        Inl e \<Rightarrow> Inl e
      | Inr (ymin, ymax) \<Rightarrow>
          (case first_last (np_where1 (any_axis0 m)) of
             Inl e \<Rightarrow> Inl e
           | Inr (xmin, xmax) \<Rightarrow> Inr (ymin, ymax, xmin, xmax)))"

text \<open>
  \<^verbatim>\<open>graphic_only_y = int(ymin + (ymax - ymin) * 0.60)\<close> and
  \<^verbatim>\<open>graphic_text_y = int(ymin + (ymax - ymin) * 0.75)\<close>; the fraction is an
  argument of \<open>crop_y\<close>. The float product is modelled in the reals: 0.75 is a
  binary fraction, and a multiple of the float nearest to 0.6 rounds to the integer
  that the exact product with 3/5 gives whenever that product is an integer.
\<close>

definition crop_y :: "real \<Rightarrow> nat \<Rightarrow> nat \<Rightarrow> int" where
  "crop_y fraction ymin ymax = py_int (real ymin + (real ymax - real ymin) * fraction)"

definition graphic_only_y :: "nat \<Rightarrow> nat \<Rightarrow> int" where
  "graphic_only_y ymin ymax = crop_y (60 / 100) ymin ymax"

definition graphic_text_y :: "nat \<Rightarrow> nat \<Rightarrow> int" where
  "graphic_text_y ymin ymax = crop_y (75 / 100) ymin ymax"

section \<open>extract-logo-advanced: alpha channel\<close>

text \<open>\<^verbatim>\<open>alpha = (cropped_mask * 255).astype(np.uint8)\<close>\<close>

definition hard_alpha :: "mask \<Rightarrow> uint8 list list" where
  "hard_alpha cropped_mask = map (map (\<lambda>b. word_of_int (of_bool b * 255))) cropped_mask"

text \<open>
  \<^verbatim>\<open>ndimage.distance_transform_edt(cropped_mask)\<close> replaces each true element by its
  Euclidean distance to the nearest false element and leaves 0 at the false ones. The
  library documents no value for an array without any false element; that value is the
  argument \<open>no_bg\<close> of the model. What scipy computes there is \<open>scipy_no_bg\<close>: its
  feature transform keeps the initial position, row -1 and column 0, for every element,
  so the result is the distance to that position. \<open>no_bg_0\<close> is another choice of the
  argument, for evaluating the model at masks that have a false element, where it is
  not read.
\<close>

definition no_bg_0 :: "nat \<Rightarrow> nat \<Rightarrow> real" where
  "no_bg_0 i j = 0"

definition scipy_no_bg :: "nat \<Rightarrow> nat \<Rightarrow> real" where
  "scipy_no_bg i j = sqrt (real ((i + 1)\<^sup>2 + j\<^sup>2))"

definition background :: "mask \<Rightarrow> (nat \<times> nat) list" where
  "background m = np_where2 (map (map Not) m)"

definition sq_dist :: "nat \<times> nat \<Rightarrow> nat \<times> nat \<Rightarrow> nat" where
  "sq_dist p q = nat ((int (fst p) - int (fst q))\<^sup>2 + (int (snd p) - int (snd q))\<^sup>2)"

definition distance_transform_edt :: "(nat \<Rightarrow> nat \<Rightarrow> real) \<Rightarrow> mask \<Rightarrow> real list list" where
  "distance_transform_edt no_bg m =
     map (\<lambda>i. map (\<lambda>j. if m ! i ! j
                        then (if background m = [] then no_bg i j
                              else sqrt (real (Min (set (map (sq_dist (i, j)) (background m))))))
                        else 0)
                   [0..<length (m ! i)])
         [0..<length m]"

text \<open>
  \<^verbatim>\<open>edge_smoothing = np.clip(distance_from_edge / 2.0, 0, 1)\<close> and
  \<^verbatim>\<open>alpha = (alpha * edge_smoothing).astype(np.uint8)\<close>; the falloff width 2.0 is
  the argument \<open>D\<close>.
\<close>

definition edge_smoothing :: "real \<Rightarrow> real list list \<Rightarrow> real list list" where
  "edge_smoothing D distance_from_edge = map (map (\<lambda>d. np_clip (d / D) 0 1)) distance_from_edge"

definition soft_alpha :: "(nat \<Rightarrow> nat \<Rightarrow> real) \<Rightarrow> real \<Rightarrow> mask \<Rightarrow> uint8 list list" where
  "soft_alpha no_bg D cropped_mask =
     map2 (map2 (\<lambda>a s. astype_uint8 (real (unat a) * s)))
          (hard_alpha cropped_mask)
          (edge_smoothing D (distance_transform_edt no_bg cropped_mask))"

text \<open>\<^verbatim>\<open>cropped_img[:, :, 3] = alpha\<close>\<close>

definition set_alpha :: "image \<Rightarrow> uint8 list list \<Rightarrow> image" where
  "set_alpha cropped_img alpha = map2 (map2 (\<lambda>p a. p\<lparr>px_a := a\<rparr>)) cropped_img alpha"

definition composite_soft :: "(nat \<Rightarrow> nat \<Rightarrow> real) \<Rightarrow> real \<Rightarrow> image \<Rightarrow> mask \<Rightarrow> image" where
  "composite_soft no_bg D cropped_img cropped_mask =
     set_alpha cropped_img (soft_alpha no_bg D cropped_mask)"

section \<open>Trim step (both scripts)\<close>

text \<open>
  \<^verbatim>\<open>non_transparent = np.where(result_array[:, :, 3] > 0)\<close>; when it is not empty
  the image is cropped to the box from the least to the greatest row and column in it,
  else it is kept. \<^verbatim>\<open>result.crop((left, upper, right, lower))\<close> of PIL is the slice
  of the rows \<open>upper..<lower\<close> and columns \<open>left..<right\<close> for a box inside the image
  with \<open>left \<le> right\<close> and \<open>upper \<le> lower\<close>.
\<close>

definition crop :: "image \<Rightarrow> nat \<times> nat \<times> nat \<times> nat \<Rightarrow> image" where
  "crop img box = (case box of (left, upper, right, lower) \<Rightarrow> slice2 img upper lower left right)"

definition non_transparent :: "image \<Rightarrow> (nat \<times> nat) list" where
  "non_transparent result_array = np_where2 (map (map (\<lambda>p. px_a p > 0)) result_array)"

definition trim :: "image \<Rightarrow> image" where
  "trim result =
     (let nt = non_transparent result in
      if length nt > 0 then
        (let trim_top = Min (set (map fst nt));
             trim_bottom = Max (set (map fst nt)) + 1;
             trim_left = Min (set (map snd nt));
             trim_right = Max (set (map snd nt)) + 1
         in crop result (trim_left, trim_top, trim_right, trim_bottom))
      else result)"

section \<open>extract-logo-advanced: the script\<close>

text \<open>
  \<^verbatim>\<open>final_img.save(...)\<close>: PIL writes the image, and raises ValueError for an image
  with no rows or no columns.
\<close>

definition save :: "image \<Rightarrow> error + image" where
  "save final_img =
     (case final_img of
        [] \<Rightarrow> Inl ValueError
      | row # _ \<Rightarrow> if row = [] then Inl ValueError else Inr final_img)"

text \<open>
  The script from the loaded array to the images it saves, one per crop variant, in
  the order of its loop. An exception ends the run.
\<close>

definition variant :: "(nat \<Rightarrow> nat \<Rightarrow> real) \<Rightarrow> image \<Rightarrow> mask \<Rightarrow> nat \<Rightarrow> int \<Rightarrow> nat \<Rightarrow> nat \<Rightarrow> image" where
  "variant no_bg img_array m ymin cy xmin xmax =
     (let cropped_img = slice2 img_array ymin (nat (cy + 1)) xmin (xmax + 1);
          cropped_mask = slice2 m ymin (nat (cy + 1)) xmin (xmax + 1)
      in trim (composite_soft no_bg 2 cropped_img cropped_mask))"

definition extract_logo_advanced :: "(nat \<Rightarrow> nat \<Rightarrow> real) \<Rightarrow> image \<Rightarrow> error + image list" where
  "extract_logo_advanced no_bg img_array =
     (let m = refine (classify white threshold img_array) in
      case bounding_box m of
        Inl e \<Rightarrow> Inl e
      | Inr (ymin, ymax, xmin, xmax) \<Rightarrow>
          (case save (variant no_bg img_array m ymin (graphic_only_y ymin ymax) xmin xmax) of
             Inl e \<Rightarrow> Inl e
           | Inr graphic \<Rightarrow>
               (case save (variant no_bg img_array m ymin (graphic_text_y ymin ymax) xmin xmax) of
                  Inl e \<Rightarrow> Inl e
                | Inr with_text \<Rightarrow> Inr [graphic, with_text])))"

section \<open>extract-logo-with-text\<close>

text \<open>
  \<^verbatim>\<open>gray = np.mean(img_array[:, :, :3], axis=2)\<close>,
  \<^verbatim>\<open>non_white_pixels = np.where(gray < 250)\<close>. When it is empty the script prints
  a message and saves nothing: the result \<open>NoOutput\<close> with the message. Otherwise it
  crops with PIL to \<^verbatim>\<open>(min_x, min_y, max_x + 1, graphic_text_max_y)\<close>, where
  \<^verbatim>\<open>graphic_text_max_y = int(max_y * 0.75)\<close>; PIL raises ValueError for a box whose
  lower edge is above its upper edge. The alpha channel starts at 255 and is set to 0
  at the light pixels (all three channels above 150) and then at the greyish ones (mean
  above 180). The trimmed image goes to \<^verbatim>\<open>final_img.save\<close>; the result
  \<open>Final_img\<close> is the image written.
\<close>

datatype outcome = Final_img image | NoOutput string

definition gray :: "pixel \<Rightarrow> real" where
  "gray p = sum_list (rgb p) / 3"

definition non_white_pixels :: "image \<Rightarrow> (nat \<times> nat) list" where
  "non_white_pixels img_array = np_where2 (map (map (\<lambda>p. gray p < 250)) img_array)"

definition graphic_text_max_y :: "nat \<Rightarrow> int" where
  "graphic_text_max_y max_y = py_int (real max_y * (75 / 100))"

definition light_pixels :: "pixel \<Rightarrow> bool" where
  "light_pixels p = list_all (\<lambda>c. c > 150) (rgb p)"

definition grayish :: "pixel \<Rightarrow> bool" where
  "grayish p \<longleftrightarrow> gray p > 180"

definition with_text_alpha :: "image \<Rightarrow> uint8 list list" where
  "with_text_alpha cropped_array =
     map (map (\<lambda>p. let a0 = 255;
                       a1 = (if light_pixels p then 0 else a0);
                       a2 = (if grayish p then 0 else a1)
                   in a2))
         cropped_array"

definition composite_hard :: "image \<Rightarrow> image" where
  "composite_hard cropped_array = set_alpha cropped_array (with_text_alpha cropped_array)"

definition extract_logo_with_text :: "image \<Rightarrow> error + outcome" where
  "extract_logo_with_text img_array =
     (let nw = non_white_pixels img_array in
      if length nw > 0 then
        (let min_y = Min (set (map fst nw));
             max_y = Max (set (map fst nw));
             min_x = Min (set (map snd nw));
             max_x = Max (set (map snd nw));
             gy = graphic_text_max_y max_y
         in if gy < int min_y then Inl ValueError
            else (case save (trim (composite_hard
                               (crop img_array (min_x, min_y, max_x + 1, nat gy)))) of
                    Inl e \<Rightarrow> Inl e
                  | Inr final_img \<Rightarrow> Inr (Final_img final_img)))
      else Inr (NoOutput ''No content found in image''))"

section \<open>The specification's formulas\<close>

text \<open>
  The crop-row cutoff as the specification words it: the least row plus the rounded
  product of the fraction and the height, clamped to the greatest row.
\<close>

definition spec_cutoff :: "real \<Rightarrow> nat \<Rightarrow> nat \<Rightarrow> int" where
  "spec_cutoff fraction minRow maxRow =
     min (int maxRow) (int minRow + round (fraction * (real maxRow - real minRow)))"






section \<open>Auxiliary notions for the proofs\<close>

text \<open>
  A mask of \<open>h\<close> rows of \<open>w\<close> cells each; the set of the positions of its true
  cells; the positions inside an array of that shape; erosion and dilation by the 3 by 3
  square on sets of positions of the whole grid, and the opening followed by the
  closing there; a mask without any true cell.
\<close>

definition rect :: "nat \<Rightarrow> nat \<Rightarrow> mask \<Rightarrow> bool" where
  "rect h w m \<longleftrightarrow> length m = h \<and> (\<forall>row \<in> set m. length row = w)"

definition cells :: "mask \<Rightarrow> (int \<times> int) set" where
  "cells m = {(i, j). cell m i j}"

definition window :: "nat \<Rightarrow> nat \<Rightarrow> (int \<times> int) set" where
  "window h w = {(i, j). 0 \<le> i \<and> i < int h \<and> 0 \<le> j \<and> j < int w}"

definition erode :: "(int \<times> int) set \<Rightarrow> (int \<times> int) set" where
  "erode X = {(i, j). \<forall>(di, dj) \<in> set ones33. (i + di, j + dj) \<in> X}"

definition dilate :: "(int \<times> int) set \<Rightarrow> (int \<times> int) set" where
  "dilate X = {(i, j). \<exists>(di, dj) \<in> set ones33. (i - di, j - dj) \<in> X}"

definition open_close :: "(int \<times> int) set \<Rightarrow> (int \<times> int) set" where
  "open_close X = erode (dilate (dilate (erode X)))"

definition no_true :: "mask \<Rightarrow> bool" where
  "no_true m \<longleftrightarrow> (\<forall>row \<in> set m. \<forall>b \<in> set row. \<not> b)"



section \<open>Foreground classifier: theorems\<close>

lemma color_distance_euclidean:
  "color_distance [r, g, b] p = euclidean_distance (colour_of p) (r, g, b)"
  by (simp add: color_distance_def euclidean_distance_def colour_of_def rgb_def)

lemma classify_nth:
  "i < length img \<Longrightarrow> j < length (img ! i) \<Longrightarrow>
   classify ref t img ! i ! j = (color_distance ref (img ! i ! j) > t)"
  by (simp add: classify_def)

lemma unat_uint8_le: "unat (c :: uint8) \<le> 255"
proof -
  have "unat c < 2 ^ LENGTH(8)" by (rule unsigned_less)
  then show ?thesis by simp
qed

lemma sq_diff_255: "(real (unat (c :: uint8)) - 255)\<^sup>2 = real ((255 - unat c)\<^sup>2)"
proof -
  have "real (255 - unat c) = 255 - real (unat c)"
    using unat_uint8_le [of c] by (simp add: of_nat_diff del: of_nat_unat)
  then have "real ((255 - unat c)\<^sup>2) = (255 - real (unat c))\<^sup>2"
    by (simp del: of_nat_unat)
  then show ?thesis by (simp add: power2_commute del: of_nat_unat)
qed

lemma classify_white_integer:
  assumes "i < length img" and "j < length (img ! i)"
  shows "classify white threshold img ! i ! j \<longleftrightarrow>
     2500 < (255 - unat (px_r (img ! i ! j)))\<^sup>2 + (255 - unat (px_g (img ! i ! j)))\<^sup>2
              + (255 - unat (px_b (img ! i ! j)))\<^sup>2"
proof -
  let ?p = "img ! i ! j"
  let ?n = "(255 - unat (px_r ?p))\<^sup>2 + (255 - unat (px_g ?p))\<^sup>2 + (255 - unat (px_b ?p))\<^sup>2"
  have d: "color_distance white ?p = sqrt (real ?n)"
    by (simp add: color_distance_def white_def rgb_def sq_diff_255 del: of_nat_power of_nat_unat of_nat_add)
  have "50 < sqrt (real ?n) \<longleftrightarrow> sqrt (50\<^sup>2) < sqrt (real ?n)" by simp
  also have "\<dots> \<longleftrightarrow> 50\<^sup>2 < real ?n" by (rule real_sqrt_less_iff)
  also have "\<dots> \<longleftrightarrow> 2500 < ?n"
  proof -
    have "(50::real)\<^sup>2 = real 2500" by simp
    then show ?thesis by (simp only: of_nat_less_iff)
  qed
  finally show ?thesis using assms by (simp add: classify_nth d threshold_def)
qed

text \<open>
  C1. In distance-threshold mode the mask has the shape of the image, and for a
  threshold above 0 it is true at a pixel exactly when the Euclidean distance of the
  pixel's colour from the reference colour is strictly greater than the threshold; a
  pixel of exactly the reference colour has distance 0 and is background. The script's
  own mask is the instance with pure white and threshold 50; there the comparison is
  the integer one of the sum of the squared channel differences with 2500.
\<close>

theorem classify_distance_threshold:
  assumes "0 < t" and "i < length img" and "j < length (img ! i)"
  shows "length (classify [r, g, b] t img) = length img
       \<and> length (classify [r, g, b] t img ! i) = length (img ! i)
       \<and> (classify [r, g, b] t img ! i ! j
            \<longleftrightarrow> euclidean_distance (colour_of (img ! i ! j)) (r, g, b) > t)
       \<and> (colour_of (img ! i ! j) = (r, g, b)
            \<longrightarrow> euclidean_distance (colour_of (img ! i ! j)) (r, g, b) = 0
                \<and> \<not> classify [r, g, b] t img ! i ! j)
       \<and> (classify white threshold img ! i ! j
            \<longleftrightarrow> euclidean_distance (colour_of (img ! i ! j)) (255, 255, 255) > 50)
       \<and> (classify white threshold img ! i ! j
            \<longleftrightarrow> 2500 < (255 - unat (px_r (img ! i ! j)))\<^sup>2
                         + (255 - unat (px_g (img ! i ! j)))\<^sup>2
                         + (255 - unat (px_b (img ! i ! j)))\<^sup>2)"
proof -
  have shape: "length (classify [r, g, b] t img) = length img"
    "length (classify [r, g, b] t img ! i) = length (img ! i)"
    using assms by (simp_all add: classify_def)
  have iff: "classify [r, g, b] t img ! i ! j
      \<longleftrightarrow> euclidean_distance (colour_of (img ! i ! j)) (r, g, b) > t"
    using assms by (simp add: classify_nth color_distance_euclidean)
  have zero: "euclidean_distance (colour_of (img ! i ! j)) (r, g, b) = 0"
    if "colour_of (img ! i ! j) = (r, g, b)"
    using that by (simp add: euclidean_distance_def)
  have dflt: "classify white threshold img ! i ! j
      \<longleftrightarrow> euclidean_distance (colour_of (img ! i ! j)) (255, 255, 255) > 50"
    using assms by (simp add: classify_nth white_def threshold_def color_distance_euclidean)
  have bg: "colour_of (img ! i ! j) = (r, g, b)
      \<longrightarrow> euclidean_distance (colour_of (img ! i ! j)) (r, g, b) = 0
          \<and> \<not> classify [r, g, b] t img ! i ! j"
    using zero iff assms(1) by auto
  note exact = classify_white_integer [OF assms(2,3)]
  show ?thesis by (intro conjI shape iff bg dflt exact)
qed

theorem classify_distance_threshold_witness:
  "(0::real) < 50 \<and> (0::nat) < length [[mk_pixel 255 255 255 255, mk_pixel 0 0 0 255]]
   \<and> (1::nat) < length ([[mk_pixel 255 255 255 255, mk_pixel 0 0 0 255]] ! 0)
   \<and> classify white threshold [[mk_pixel 255 255 255 255, mk_pixel 0 0 0 255]] ! 0 ! 1
   \<and> \<not> classify [255, 255, 255] 50 [[mk_pixel 255 255 255 255, mk_pixel 0 0 0 255]] ! 0 ! 0"
proof -
  let ?img = "[[mk_pixel 255 255 255 255, mk_pixel 0 0 0 255]]"
  have h: "(0::real) < 50" "(0::nat) < length ?img" "(1::nat) < length (?img ! 0)"
    "(0::nat) < length (?img ! 0)"
    by simp_all
  have d: "euclidean_distance (colour_of (?img ! 0 ! 1)) (255, 255, 255) > 50"
    by (simp add: euclidean_distance_def colour_of_def mk_pixel_def real_less_rsqrt)
  have c: "colour_of (?img ! 0 ! 0) = (255, 255, 255)"
    by (simp add: colour_of_def mk_pixel_def)
  from classify_distance_threshold [OF h(1) h(2) h(3), of 255 255 255]
       classify_distance_threshold [OF h(1) h(2) h(4), of 255 255 255] d c h
  show ?thesis by simp
qed
section \<open>Vertical region selector: theorems\<close>

lemma py_int_nonneg: "0 \<le> x \<Longrightarrow> py_int x = \<lfloor>x\<rfloor>"
  by (simp add: py_int_def)

lemma crop_y_floor:
  assumes "ymin \<le> ymax" and "0 \<le> f"
  shows "crop_y f ymin ymax = int ymin + \<lfloor>f * real (ymax - ymin)\<rfloor>"
proof -
  have nn: "0 \<le> f * real (ymax - ymin)" using assms by simp
  have d: "real ymax - real ymin = real (ymax - ymin)"
    using assms(1) by simp
  have e: "real ymin + (real ymax - real ymin) * f = real_of_int (int ymin) + f * real (ymax - ymin)"
    unfolding d by (simp add: mult.commute)
  have "py_int (real_of_int (int ymin) + f * real (ymax - ymin))
      = \<lfloor>real_of_int (int ymin) + f * real (ymax - ymin)\<rfloor>"
    using nn by (intro py_int_nonneg) simp
  also have "\<dots> = int ymin + \<lfloor>f * real (ymax - ymin)\<rfloor>"
    by (rule int_add_floor [symmetric])
  finally show ?thesis unfolding crop_y_def e .
qed


text \<open>
  The specification's cutoff rounds to the nearest row; the script's \<^verbatim>\<open>int(...)\<close>
  truncates. For a content box of the rows 0 to 3 the graphic-only variant cuts at row 1,
  the rounded formula at row 2.
\<close>

theorem crop_y_round_counterexample:
  "graphic_only_y 0 3 \<noteq> spec_cutoff (60 / 100) 0 3"
  by (simp add: graphic_only_y_def crop_y_def py_int_def spec_cutoff_def round_def)

text \<open>
  C3 (amended). For \<open>ymin \<le> ymax\<close> and a fraction in (0, 1] the crop row of
  extract-logo-advanced is \<open>ymin\<close> plus the product of the fraction and the height
  truncated to an integer; it lies between \<open>ymin\<close> and \<open>ymax\<close> with no clamping, is
  \<open>ymax\<close> for the fraction 1 and \<open>ymin\<close> as soon as the product is below 1. The two
  variants of the script cut at three fifths and three quarters of the height, rounded
  down. extract-logo-with-text takes three quarters of the greatest row itself, rounded
  down, as the exclusive lower edge of its crop.
\<close>

theorem crop_y_truncates:
  assumes "ymin \<le> ymax" and "0 < f" and "f \<le> 1"
  shows "crop_y f ymin ymax = int ymin + \<lfloor>f * real (ymax - ymin)\<rfloor>
       \<and> int ymin \<le> crop_y f ymin ymax \<and> crop_y f ymin ymax \<le> int ymax
       \<and> crop_y 1 ymin ymax = int ymax
       \<and> (f * real (ymax - ymin) < 1 \<longrightarrow> crop_y f ymin ymax = int ymin)
       \<and> graphic_only_y ymin ymax = int ymin + int ((3 * (ymax - ymin)) div 5)
       \<and> graphic_text_y ymin ymax = int ymin + int ((3 * (ymax - ymin)) div 4)
       \<and> graphic_text_max_y ymax = int ((3 * ymax) div 4)"
proof -
  let ?n = "ymax - ymin"
  have eq: "crop_y f ymin ymax = int ymin + \<lfloor>f * real ?n\<rfloor>"
    using assms by (simp add: crop_y_floor)
  have nn: "0 \<le> f * real ?n" using assms by simp
  have le: "f * real ?n \<le> real ?n" using assms by (simp add: mult_left_le_one_le)
  have lo: "0 \<le> \<lfloor>f * real ?n\<rfloor>" using nn by simp
  have hi: "\<lfloor>f * real ?n\<rfloor> \<le> int ?n" using le by (simp add: floor_le_iff)
  have one: "crop_y 1 ymin ymax = int ymax"
  proof -
    have c: "crop_y 1 ymin ymax = int ymin + \<lfloor>1 * real ?n\<rfloor>"
      by (rule crop_y_floor) (simp_all add: assms(1))
    have f1: "\<lfloor>(1::real) * real ?n\<rfloor> = int ?n"
      by (simp only: mult_1 floor_of_nat)
    have n: "int ?n = int ymax - int ymin"
      using assms(1) by simp
    show ?thesis using c f1 n by linarith
  qed
  have small: "crop_y f ymin ymax = int ymin" if "f * real ?n < 1"
  proof -
    have "\<lfloor>f * real ?n\<rfloor> = 0" using nn that by (simp add: floor_eq_iff)
    then show ?thesis using eq by simp
  qed
  have g1: "graphic_only_y ymin ymax = int ymin + int ((3 * ?n) div 5)"
  proof -
    have "(60 / 100) * real ?n = real (3 * ?n) / real 5" by simp
    then have "\<lfloor>(60 / 100) * real ?n\<rfloor> = int ((3 * ?n) div 5)"
      by (simp only: floor_divide_of_nat_eq)
    moreover have "crop_y (60 / 100) ymin ymax = int ymin + \<lfloor>(60 / 100) * real ?n\<rfloor>"
      by (rule crop_y_floor) (simp_all add: assms(1))
    ultimately show ?thesis unfolding graphic_only_y_def by linarith
  qed
  have g2: "graphic_text_y ymin ymax = int ymin + int ((3 * ?n) div 4)"
  proof -
    have "(75 / 100) * real ?n = real (3 * ?n) / real 4" by simp
    then have "\<lfloor>(75 / 100) * real ?n\<rfloor> = int ((3 * ?n) div 4)"
      by (simp only: floor_divide_of_nat_eq)
    moreover have "crop_y (75 / 100) ymin ymax = int ymin + \<lfloor>(75 / 100) * real ?n\<rfloor>"
      by (rule crop_y_floor) (simp_all add: assms(1))
    ultimately show ?thesis unfolding graphic_text_y_def by linarith
  qed
  have g3: "graphic_text_max_y ymax = int ((3 * ymax) div 4)"
  proof -
    have "real ymax * (75 / 100) = real (3 * ymax) / real 4" by simp
    then have "\<lfloor>real ymax * (75 / 100)\<rfloor> = int ((3 * ymax) div 4)"
      by (simp only: floor_divide_of_nat_eq)
    then show ?thesis by (simp add: graphic_text_max_y_def py_int_def)
  qed
  show ?thesis using eq lo hi one small g1 g2 g3 assms(1) by auto
qed

theorem crop_y_truncates_witness:
  "(0::nat) \<le> 3 \<and> (0::real) < 60 / 100 \<and> (60 / 100 :: real) \<le> 1
   \<and> crop_y (60 / 100) 0 3 = 1 \<and> crop_y 1 0 3 = 3 \<and> graphic_text_max_y 3 = 2"
proof -
  have h: "(0::nat) \<le> 3" "(0::real) < 60 / 100" "(60 / 100 :: real) \<le> 1" by simp_all
  from crop_y_truncates [OF h] h show ?thesis by simp
qed
section \<open>Alpha compositor, hard edge: theorems\<close>

lemma hard_alpha_nth:
  "i < length m \<Longrightarrow> j < length (m ! i) \<Longrightarrow>
   hard_alpha m ! i ! j = (if m ! i ! j then 255 else 0)"
  by (simp add: hard_alpha_def)

lemma hard_alpha_shape: "map length (hard_alpha m) = map length m"
  by (simp add: hard_alpha_def)

lemma with_text_alpha_nth:
  "i < length a \<Longrightarrow> j < length (a ! i) \<Longrightarrow>
   with_text_alpha a ! i ! j
     = (if \<not> light_pixels (a ! i ! j) \<and> \<not> grayish (a ! i ! j) then 255 else 0)"
  by (simp add: with_text_alpha_def)

text \<open>
  C7. The hard-edge alpha channel has the shape of the mask and is 255 at every true
  cell and 0 at every false one, so it takes no other value. In extract-logo-advanced
  this is the channel built from the cropped mask; in extract-logo-with-text the mask
  is the test that a pixel is neither light nor greyish.
\<close>

theorem hard_edge_alpha:
  assumes "i < length m" and "j < length (m ! i)"
    and "k < length a" and "l < length (a ! k)"
  shows "map length (hard_alpha m) = map length m
       \<and> unat (hard_alpha m ! i ! j) = of_bool (m ! i ! j) * 255
       \<and> hard_alpha m ! i ! j \<in> {0, 255}
       \<and> map length (with_text_alpha a) = map length a
       \<and> unat (with_text_alpha a ! k ! l)
           = of_bool (\<not> light_pixels (a ! k ! l) \<and> \<not> grayish (a ! k ! l)) * 255
       \<and> with_text_alpha a ! k ! l \<in> {0, 255}"
  using assms by (simp add: hard_alpha_nth hard_alpha_shape with_text_alpha_nth with_text_alpha_def)

theorem hard_edge_alpha_witness:
  "(0::nat) < length [[False, True]] \<and> (1::nat) < length ([[False, True]] ! 0)
   \<and> (0::nat) < length [[mk_pixel 0 0 0 7, mk_pixel 255 255 255 7]]
   \<and> (1::nat) < length ([[mk_pixel 0 0 0 7, mk_pixel 255 255 255 7]] ! 0)
   \<and> unat (hard_alpha [[False, True]] ! 0 ! 1) = 255
   \<and> unat (with_text_alpha [[mk_pixel 0 0 0 7, mk_pixel 255 255 255 7]] ! 0 ! 1) = 0"
proof -
  let ?m = "[[False, True]]"
  let ?a = "[[mk_pixel 0 0 0 7, mk_pixel 255 255 255 7]]"
  have h: "(0::nat) < length ?m" "(1::nat) < length (?m ! 0)"
    "(0::nat) < length ?a" "(1::nat) < length (?a ! 0)" by simp_all
  have l: "light_pixels (?a ! 0 ! 1)"
    by (simp add: light_pixels_def rgb_def mk_pixel_def)
  from hard_edge_alpha [OF h] h l show ?thesis by simp
qed

section \<open>Alpha compositor, frame: theorems\<close>

lemma set_alpha_shape:
  "map length alpha = map length img \<Longrightarrow> map length (set_alpha img alpha) = map length img"
proof -
  assume a: "map length alpha = map length img"
  then have len: "length alpha = length img" by (metis length_map)
  show ?thesis
  proof (rule nth_equalityI)
    show "length (map length (set_alpha img alpha)) = length (map length img)"
      using len by (simp add: set_alpha_def)
  next
    fix i assume "i < length (map length (set_alpha img alpha))"
    then have i: "i < length img" using len by (simp add: set_alpha_def)
    have "length (alpha ! i) = length (img ! i)"
      using a i len by (metis nth_map)
    then show "map length (set_alpha img alpha) ! i = map length img ! i"
      using i len by (simp add: set_alpha_def)
  qed
qed

lemma set_alpha_nth:
  assumes "map length alpha = map length img" and "i < length img" and "j < length (img ! i)"
  shows "set_alpha img alpha ! i ! j = (img ! i ! j)\<lparr>px_a := alpha ! i ! j\<rparr>"
proof -
  have len: "length alpha = length img" using assms(1) by (metis length_map)
  have "length (alpha ! i) = length (img ! i)"
    using assms(1,2) len by (metis nth_map)
  then show ?thesis using assms len by (simp add: set_alpha_def)
qed

lemma edt_shape: "map length (distance_transform_edt no_bg m) = map length m"
  by (rule nth_equalityI) (simp_all add: distance_transform_edt_def)

lemma soft_alpha_shape: "map length (soft_alpha no_bg D m) = map length m"
proof (rule nth_equalityI)
  show "length (map length (soft_alpha no_bg D m)) = length (map length m)"
    by (simp add: soft_alpha_def hard_alpha_def edge_smoothing_def distance_transform_edt_def)
next
  fix i assume "i < length (map length (soft_alpha no_bg D m))"
  then have i: "i < length m"
    by (simp add: soft_alpha_def hard_alpha_def edge_smoothing_def distance_transform_edt_def)
  then show "map length (soft_alpha no_bg D m) ! i = map length m ! i"
    by (simp add: soft_alpha_def hard_alpha_def edge_smoothing_def distance_transform_edt_def)
qed

lemma with_text_alpha_shape: "map length (with_text_alpha a) = map length a"
  by (simp add: with_text_alpha_def)

text \<open>
  C8. Writing the alpha channel into the cropped image changes nothing else: in the
  soft-edge compositor of extract-logo-advanced and in the hard-edge one of
  extract-logo-with-text the result has the shape of the cropped image, each pixel keeps
  its three colour channels, and its alpha is the computed one.
\<close>

theorem compositor_frame:
  assumes "map length cropped_mask = map length cropped_img"
    and "i < length cropped_img" and "j < length (cropped_img ! i)"
  shows "map length (composite_soft no_bg D cropped_img cropped_mask) = map length cropped_img
       \<and> px_r (composite_soft no_bg D cropped_img cropped_mask ! i ! j) = px_r (cropped_img ! i ! j)
       \<and> px_g (composite_soft no_bg D cropped_img cropped_mask ! i ! j) = px_g (cropped_img ! i ! j)
       \<and> px_b (composite_soft no_bg D cropped_img cropped_mask ! i ! j) = px_b (cropped_img ! i ! j)
       \<and> px_a (composite_soft no_bg D cropped_img cropped_mask ! i ! j)
           = soft_alpha no_bg D cropped_mask ! i ! j
       \<and> map length (composite_hard cropped_img) = map length cropped_img
       \<and> px_r (composite_hard cropped_img ! i ! j) = px_r (cropped_img ! i ! j)
       \<and> px_g (composite_hard cropped_img ! i ! j) = px_g (cropped_img ! i ! j)
       \<and> px_b (composite_hard cropped_img ! i ! j) = px_b (cropped_img ! i ! j)
       \<and> px_a (composite_hard cropped_img ! i ! j) = with_text_alpha cropped_img ! i ! j"
proof -
  have s: "map length (soft_alpha no_bg D cropped_mask) = map length cropped_img"
    using assms(1) by (simp add: soft_alpha_shape)
  have h: "map length (with_text_alpha cropped_img) = map length cropped_img"
    by (rule with_text_alpha_shape)
  show ?thesis
    unfolding composite_soft_def composite_hard_def
    using set_alpha_shape [OF s] set_alpha_nth [OF s assms(2,3)]
      set_alpha_shape [OF h] set_alpha_nth [OF h assms(2,3)]
    by simp
qed

theorem compositor_frame_witness:
  "map length [[False, True]] = map length [[mk_pixel 1 2 3 4, mk_pixel 5 6 7 8]]
   \<and> (0::nat) < length [[mk_pixel 1 2 3 4, mk_pixel 5 6 7 8]]
   \<and> (1::nat) < length ([[mk_pixel 1 2 3 4, mk_pixel 5 6 7 8]] ! 0)
   \<and> px_r (composite_soft no_bg_0 2 [[mk_pixel 1 2 3 4, mk_pixel 5 6 7 8]] [[False, True]] ! 0 ! 1) = 5
   \<and> px_g (composite_soft no_bg_0 2 [[mk_pixel 1 2 3 4, mk_pixel 5 6 7 8]] [[False, True]] ! 0 ! 1) = 6
   \<and> px_b (composite_soft no_bg_0 2 [[mk_pixel 1 2 3 4, mk_pixel 5 6 7 8]] [[False, True]] ! 0 ! 1) = 7
   \<and> px_b (composite_hard [[mk_pixel 1 2 3 4, mk_pixel 5 6 7 8]] ! 0 ! 1) = 7"
proof -
  let ?img = "[[mk_pixel 1 2 3 4, mk_pixel 5 6 7 8]]"
  have h: "map length [[False, True]] = map length ?img"
    "(0::nat) < length ?img" "(1::nat) < length (?img ! 0)" by simp_all
  from compositor_frame [OF h, of no_bg_0 2] h show ?thesis
    by (simp add: mk_pixel_def)
qed

section \<open>Distance transform and soft alpha: lemmas\<close>

lemma set_np_where2:
  "set (np_where2 a) = {(i, j). i < length a \<and> j < length (a ! i) \<and> a ! i ! j}"
  by (auto simp: np_where2_def)




lemma edt_nth:
  "i < length m \<Longrightarrow> j < length (m ! i) \<Longrightarrow>
   distance_transform_edt no_bg m ! i ! j
     = (if m ! i ! j
        then (if background m = [] then no_bg i j
              else sqrt (real (Min (set (map (sq_dist (i, j)) (background m))))))
        else 0)"
  by (simp add: distance_transform_edt_def)

lemma soft_alpha_nth:
  "i < length m \<Longrightarrow> j < length (m ! i) \<Longrightarrow>
   soft_alpha no_bg D m ! i ! j
     = astype_uint8 (real (unat (hard_alpha m ! i ! j))
                      * np_clip (distance_transform_edt no_bg m ! i ! j / D) 0 1)"
  by (simp add: soft_alpha_def hard_alpha_def edge_smoothing_def distance_transform_edt_def)


lemma np_clip_unit: "0 \<le> np_clip x 0 1 \<and> np_clip x 0 1 \<le> 1"
  by (simp add: np_clip_def)

lemma uint_astype_uint8:
  assumes "0 \<le> x" and "x < 256"
  shows "uint (astype_uint8 x) = \<lfloor>x\<rfloor>"
proof -
  have "0 \<le> \<lfloor>x\<rfloor>" using assms(1) by simp
  moreover have "\<lfloor>x\<rfloor> < 256" using assms(2) by (simp add: floor_less_iff)
  ultimately have "uint (word_of_int \<lfloor>x\<rfloor> :: uint8) = \<lfloor>x\<rfloor>"
    by (simp add: uint_word_of_int)
  then show ?thesis using assms(1) by (simp add: astype_uint8_def py_int_def)
qed

lemma soft_alpha_uint:
  assumes "i < length m" and "j < length (m ! i)"
  shows "uint (soft_alpha no_bg D m ! i ! j)
       = \<lfloor>255 * of_bool (m ! i ! j) * np_clip (distance_transform_edt no_bg m ! i ! j / D) 0 1\<rfloor>"
proof -
  let ?c = "np_clip (distance_transform_edt no_bg m ! i ! j / D) 0 1"
  have c: "0 \<le> ?c" "?c \<le> 1" using np_clip_unit by blast+
  have h: "real (unat (hard_alpha m ! i ! j)) = 255 * of_bool (m ! i ! j)"
    using assms by (simp add: hard_alpha_def)
  have "0 \<le> 255 * of_bool (m ! i ! j) * ?c" using c by simp
  moreover have "255 * of_bool (m ! i ! j) * ?c < 256"
  proof -
    have "255 * of_bool (m ! i ! j) * ?c \<le> 255 * 1 * 1"
      using c by (intro mult_mono) simp_all
    then show ?thesis by simp
  qed
  ultimately show ?thesis
    unfolding soft_alpha_nth [OF assms] h by (rule uint_astype_uint8)
qed















text \<open>
  C10. For every cropped mask and falloff width \<open>D > 0\<close> the soft-edge alpha at a
  cell is at most the hard-edge alpha there, which is 255 at a true cell; at a false
  cell the distance transform is 0 and the soft-edge alpha is 0.
\<close>

theorem soft_alpha_le_hard_alpha:
  assumes "0 < D" and "i < length m" and "j < length (m ! i)"
  shows "soft_alpha no_bg D m ! i ! j \<le> hard_alpha m ! i ! j
       \<and> (m ! i ! j \<longrightarrow> hard_alpha m ! i ! j = 255)
       \<and> (\<not> m ! i ! j \<longrightarrow> distance_transform_edt no_bg m ! i ! j = 0
                           \<and> soft_alpha no_bg D m ! i ! j = 0)"
proof -
  let ?s = "soft_alpha no_bg D m ! i ! j"
  let ?c = "np_clip (distance_transform_edt no_bg m ! i ! j / D) 0 1"
  have c: "0 \<le> ?c" "?c \<le> 1" using np_clip_unit by blast+
  have u: "uint ?s = \<lfloor>255 * of_bool (m ! i ! j) * ?c\<rfloor>"
    by (rule soft_alpha_uint [OF assms(2,3)])
  have h: "hard_alpha m ! i ! j = (if m ! i ! j then 255 else 0)"
    by (rule hard_alpha_nth [OF assms(2,3)])
  have le: "uint ?s \<le> uint (hard_alpha m ! i ! j)"
  proof (cases "m ! i ! j")
    case True
    have "255 * ?c \<le> 255" using c by simp
    then have "\<lfloor>255 * ?c\<rfloor> \<le> 255" by (simp add: floor_le_iff)
    then show ?thesis using u h True by simp
  next
    case False
    then show ?thesis using u h by simp
  qed
  have off: "?s = 0" if "\<not> m ! i ! j"
  proof -
    have "uint ?s = uint (0 :: uint8)" using u that by simp
    then show ?thesis by (simp only: word_uint_eq_iff)
  qed
  have e: "distance_transform_edt no_bg m ! i ! j = 0" if "\<not> m ! i ! j"
    using that assms(2,3) by (simp add: edt_nth)
  show ?thesis using le h off e by (simp add: word_le_def)
qed

theorem soft_alpha_le_hard_alpha_witness:
  "(0::real) < 2 \<and> (0::nat) < length [[False, True]] \<and> (1::nat) < length ([[False, True]] ! 0)
   \<and> soft_alpha no_bg_0 2 [[False, True]] ! 0 ! 1 \<le> hard_alpha [[False, True]] ! 0 ! 1
   \<and> hard_alpha [[False, True]] ! 0 ! 1 = 255
   \<and> soft_alpha no_bg_0 2 [[False, True]] ! 0 ! 0 = 0"
proof -
  let ?m = "[[False, True]]"
  have h: "(0::real) < 2" "(0::nat) < length ?m" "(1::nat) < length (?m ! 0)"
    "(0::nat) < length (?m ! 0)"
    by simp_all
  note a = soft_alpha_le_hard_alpha [OF h(1) h(2) h(3), of no_bg_0]
  note b = soft_alpha_le_hard_alpha [OF h(1) h(2) h(4), of no_bg_0]
  have 1: "soft_alpha no_bg_0 2 ?m ! 0 ! 1 \<le> hard_alpha ?m ! 0 ! 1"
    using a by (rule conjunct1)
  have 2: "hard_alpha ?m ! 0 ! 1 = 255" using a by simp
  have 3: "soft_alpha no_bg_0 2 ?m ! 0 ! 0 = 0" using b by simp
  show ?thesis by (intro conjI h(1) h(2) h(3) 1 2 3)
qed

section \<open>Trim step: theorems\<close>

lemma set_non_transparent:
  "set (non_transparent g) = {(i, j). i < length g \<and> j < length (g ! i) \<and> 0 < px_a (g ! i ! j)}"
  by (auto simp: non_transparent_def set_np_where2)

text \<open>
  C6. When no pixel of the image has an alpha above 0, the trim step returns the image
  as it is: the same rows with the same pixels.
\<close>

theorem trim_degenerate:
  assumes "\<forall>row \<in> set g. \<forall>p \<in> set row. \<not> 0 < px_a p"
  shows "trim g = g"
proof -
  have "set (non_transparent g) = {}"
  proof -
    have "\<not> 0 < px_a (g ! i ! j)" if "i < length g" "j < length (g ! i)" for i j
      using assms that by (meson nth_mem)
    then show ?thesis by (auto simp: set_non_transparent)
  qed
  then have "non_transparent g = []" by simp
  then show ?thesis by (simp add: trim_def)
qed

theorem trim_degenerate_witness:
  "trim [[mk_pixel 9 8 7 0, mk_pixel 1 2 3 0]] = [[mk_pixel 9 8 7 0, mk_pixel 1 2 3 0]]"
proof -
  have h: "\<forall>row \<in> set [[mk_pixel 9 8 7 0, mk_pixel 1 2 3 0]]. \<forall>p \<in> set row. \<not> 0 < px_a p"
    by (simp add: mk_pixel_def)
  from trim_degenerate [OF h] show ?thesis .
qed

lemma slice2_length:
  "length (slice2 a y0 y1 x0 x1) = min (length a - y0) (y1 - y0)"
  by (simp add: slice2_def min.commute)

lemma slice2_nth_row:
  assumes "i < length (slice2 a y0 y1 x0 x1)"
  shows "slice2 a y0 y1 x0 x1 ! i = take (x1 - x0) (drop x0 (a ! (y0 + i)))"
proof -
  have i: "i < length a - y0" "i < y1 - y0" using assms by (simp_all add: slice2_def)
  then have "y0 \<le> length a" by simp
  then have "drop y0 a ! i = a ! (y0 + i)" by simp
  then show ?thesis using i by (simp add: slice2_def)
qed

lemma trim_nonempty:
  assumes "non_transparent g \<noteq> []"
  shows "trim g = slice2 g (Min (fst ` set (non_transparent g)))
                          (Max (fst ` set (non_transparent g)) + 1)
                          (Min (snd ` set (non_transparent g)))
                          (Max (snd ` set (non_transparent g)) + 1)"
  using assms by (simp add: trim_def Let_def crop_def)


lemma slice2_full:
  assumes "length a \<le> h" and "\<forall>row \<in> set a. length row \<le> w"
  shows "slice2 a 0 h 0 w = a"
proof -
  have "map (\<lambda>row. take w row) a = map (\<lambda>row. row) a"
    using assms(2) by (intro map_cong) simp_all
  then show ?thesis using assms(1) by (simp add: slice2_def)
qed

lemma trim_idem_nonempty:
  assumes ne: "non_transparent g \<noteq> []"
  shows "trim (trim g) = trim g"
proof -
  define N where "N = set (non_transparent g)"
  define T where "T = Min (fst ` N)"
  define Bm where "Bm = Max (fst ` N)"
  define L where "L = Min (snd ` N)"
  define Rm where "Rm = Max (snd ` N)"
  define g' where "g' = slice2 g T (Bm + 1) L (Rm + 1)"
  have fin: "finite N" and nN: "N \<noteq> {}" using ne by (simp_all add: N_def)
  have tg: "trim g = g'"
    using trim_nonempty [OF ne] by (simp add: g'_def T_def Bm_def L_def Rm_def N_def)
  have N_iff: "(a, b) \<in> N \<longleftrightarrow> a < length g \<and> b < length (g ! a) \<and> 0 < px_a (g ! a ! b)" for a b
    by (simp add: N_def set_non_transparent)
  have bnd: "T \<le> a \<and> a \<le> Bm \<and> L \<le> b \<and> b \<le> Rm" if "(a, b) \<in> N" for a b
  proof -
    have "a \<in> fst ` N" "b \<in> snd ` N" using that by force+
    then show ?thesis using fin by (simp add: T_def Bm_def L_def Rm_def)
  qed
  have "Bm \<in> fst ` N" unfolding Bm_def using fin nN by (intro Max_in) simp_all
  then obtain b0 where "(Bm, b0) \<in> N" by auto
  then have Bm_lt: "Bm < length g" using N_iff by blast
  have T_le: "T \<le> Bm" using \<open>(Bm, b0) \<in> N\<close> bnd by blast
  have len: "length g' = Bm + 1 - T"
    using Bm_lt by (simp add: g'_def slice2_length)
  have row: "g' ! i = take (Rm + 1 - L) (drop L (g ! (T + i)))" if "i < length g'" for i
    using that unfolding g'_def by (rule slice2_nth_row)
  have rowlen: "length (g' ! i) = min (length (g ! (T + i)) - L) (Rm + 1 - L)" if "i < length g'" for i
    using row [OF that] by simp
  have el: "g' ! i ! j = g ! (T + i) ! (L + j)" if "i < length g'" "j < length (g' ! i)" for i j
  proof -
    have j: "j < length (g ! (T + i)) - L" "j < Rm + 1 - L" using rowlen that by simp_all
    then have "L \<le> length (g ! (T + i))" by simp
    then show ?thesis using row [OF that(1)] j by simp
  qed
  define N' where "N' = set (non_transparent g')"
  have N'_iff: "(i, j) \<in> N' \<longleftrightarrow> (T + i, L + j) \<in> N" for i j
  proof
    assume "(i, j) \<in> N'"
    then have a: "i < length g'" "j < length (g' ! i)" "0 < px_a (g' ! i ! j)"
      by (simp_all add: N'_def set_non_transparent)
    have "T + i < length g" using a(1) len Bm_lt by simp
    moreover have "L + j < length (g ! (T + i))" using a(2) rowlen [OF a(1)] by arith
    moreover have "0 < px_a (g ! (T + i) ! (L + j))" using a(3) el [OF a(1,2)] by simp
    ultimately show "(T + i, L + j) \<in> N" using N_iff by blast
  next
    assume m: "(T + i, L + j) \<in> N"
    then have b: "T + i \<le> Bm" "L + j \<le> Rm" using bnd by blast+
    have c: "T + i < length g" "L + j < length (g ! (T + i))" "0 < px_a (g ! (T + i) ! (L + j))"
      using m N_iff by blast+
    have i: "i < length g'" using b(1) len by simp
    have j: "j < length (g' ! i)" using rowlen [OF i] b(2) c(2) by arith
    have "0 < px_a (g' ! i ! j)" using el [OF i j] c(3) by simp
    then show "(i, j) \<in> N'" using i j by (simp add: N'_def set_non_transparent)
  qed
  have N'_img: "N' = (\<lambda>(a, b). (a - T, b - L)) ` N"
  proof (rule set_eqI)
    fix p :: "nat \<times> nat"
    obtain i j where p: "p = (i, j)" by (cases p)
    show "p \<in> N' \<longleftrightarrow> p \<in> (\<lambda>(a, b). (a - T, b - L)) ` N"
    proof
      assume "p \<in> N'"
      then have "(T + i, L + j) \<in> N" using p N'_iff by simp
      moreover have "(\<lambda>(a, b). (a - T, b - L)) (T + i, L + j) = p" using p by simp
      ultimately show "p \<in> (\<lambda>(a, b). (a - T, b - L)) ` N" by (metis image_eqI)
    next
      assume "p \<in> (\<lambda>(a, b). (a - T, b - L)) ` N"
      then obtain a b where ab: "(a, b) \<in> N" and e: "i = a - T" "j = b - L"
        using p by auto
      have "T \<le> a" "L \<le> b" using bnd [OF ab] by simp_all
      then have "(T + i, L + j) = (a, b)" using e by simp
      then show "p \<in> N'" using ab p N'_iff by simp
    qed
  qed
  have f': "fst ` N' = (\<lambda>a. a - T) ` (fst ` N)"
    unfolding N'_img by (force simp: image_iff)
  have s': "snd ` N' = (\<lambda>b. b - L) ` (snd ` N)"
    unfolding N'_img by (force simp: image_iff)
  have monoT: "mono (\<lambda>a::nat. a - T)" and monoL: "mono (\<lambda>b::nat. b - L)"
    by (auto intro!: monoI)
  have finf: "finite (fst ` N)" "fst ` N \<noteq> {}" "finite (snd ` N)" "snd ` N \<noteq> {}"
    using fin nN by simp_all
  have minT: "Min (fst ` N') = 0"
    using mono_Min_commute [OF monoT finf(1,2)] by (simp add: f' T_def)
  have maxT: "Max (fst ` N') = Bm - T"
    using mono_Max_commute [OF monoT finf(1,2)] by (simp add: f' Bm_def)
  have minL: "Min (snd ` N') = 0"
    using mono_Min_commute [OF monoL finf(3,4)] by (simp add: s' L_def)
  have maxL: "Max (snd ` N') = Rm - L"
    using mono_Max_commute [OF monoL finf(3,4)] by (simp add: s' Rm_def)
  have ne': "non_transparent g' \<noteq> []"
  proof -
    have "N' \<noteq> {}" using nN N'_img by simp
    then show ?thesis by (auto simp: N'_def)
  qed
  have "trim g' = slice2 g' 0 (Bm - T + 1) 0 (Rm - L + 1)"
    using trim_nonempty [OF ne'] minT maxT minL maxL by (simp add: N'_def)
  also have "\<dots> = g'"
  proof (rule slice2_full)
    show "length g' \<le> Bm - T + 1" using len by simp
    show "\<forall>row \<in> set g'. length row \<le> Rm - L + 1"
    proof
      fix r assume "r \<in> set g'"
      then obtain i where i: "i < length g'" and r: "r = g' ! i"
        by (metis in_set_conv_nth)
      show "length r \<le> Rm - L + 1" unfolding r using rowlen [OF i] by simp
    qed
  qed
  finally show ?thesis using tg by simp
qed

text \<open>
  C9. Trimming is idempotent: the trim of a trimmed image is that image, with the same
  dimensions and the same pixels.
\<close>

theorem trim_idempotent: "trim (trim g) = trim g"
proof (cases "non_transparent g = []")
  case True
  then have "trim g = g" by (simp add: trim_def)
  then show ?thesis by simp
next
  case False
  then show ?thesis by (rule trim_idem_nonempty)
qed

section \<open>Mask refiner: theorems\<close>

lemma rect_erosion: "rect h w m \<Longrightarrow> rect h w (binary_erosion s m)"
  by (auto simp: rect_def binary_erosion_def)

lemma rect_dilation: "rect h w m \<Longrightarrow> rect h w (binary_dilation s m)"
  by (auto simp: rect_def binary_dilation_def)

lemma rect_refine: "rect h w m \<Longrightarrow> rect h w (refine m)"
  by (simp add: refine_def binary_closing_def binary_opening_def rect_erosion rect_dilation)

lemma cell_rect:
  assumes "rect h w m"
  shows "cell m i j \<longleftrightarrow> 0 \<le> i \<and> i < int h \<and> 0 \<le> j \<and> j < int w \<and> m ! nat i ! nat j"
proof (cases "0 \<le> i \<and> i < int h")
  case True
  then have "nat i < length m" using assms by (simp add: rect_def nat_less_iff)
  then have "length (m ! nat i) = w" using assms by (simp add: rect_def)
  then show ?thesis using assms by (simp add: cell_def rect_def)
next
  case False
  then show ?thesis using assms by (auto simp: cell_def rect_def)
qed

lemma cell_erosion:
  assumes "rect h w m"
  shows "cell (binary_erosion s m) i j \<longleftrightarrow>
     0 \<le> i \<and> i < int h \<and> 0 \<le> j \<and> j < int w \<and> (\<forall>(di, dj) \<in> set s. cell m (i + di) (j + dj))"
proof (cases "0 \<le> i \<and> i < int h \<and> 0 \<le> j \<and> j < int w")
  case True
  then have i: "nat i < length m" using assms by (simp add: rect_def nat_less_iff)
  then have "length (m ! nat i) = w" using assms by (simp add: rect_def)
  then have j: "nat j < length (m ! nat i)" using True by (simp add: nat_less_iff)
  have "binary_erosion s m ! nat i ! nat j
      = list_all (\<lambda>(di, dj). cell m (int (nat i) + di) (int (nat j) + dj)) s"
    using i j by (simp add: binary_erosion_def)
  then show ?thesis
    using True cell_rect [OF rect_erosion [OF assms], of s i j]
    by (simp add: list_all_iff case_prod_beta)
next
  case False
  then show ?thesis using cell_rect [OF rect_erosion [OF assms], of s i j] by auto
qed

lemma cell_dilation:
  assumes "rect h w m"
  shows "cell (binary_dilation s m) i j \<longleftrightarrow>
     0 \<le> i \<and> i < int h \<and> 0 \<le> j \<and> j < int w \<and> (\<exists>(di, dj) \<in> set s. cell m (i - di) (j - dj))"
proof (cases "0 \<le> i \<and> i < int h \<and> 0 \<le> j \<and> j < int w")
  case True
  then have i: "nat i < length m" using assms by (simp add: rect_def nat_less_iff)
  then have "length (m ! nat i) = w" using assms by (simp add: rect_def)
  then have j: "nat j < length (m ! nat i)" using True by (simp add: nat_less_iff)
  have "binary_dilation s m ! nat i ! nat j
      = list_ex (\<lambda>(di, dj). cell m (int (nat i) - di) (int (nat j) - dj)) s"
    using i j by (simp add: binary_dilation_def)
  then show ?thesis
    using True cell_rect [OF rect_dilation [OF assms], of s i j]
    by (simp add: list_ex_iff case_prod_beta)
next
  case False
  then show ?thesis using cell_rect [OF rect_dilation [OF assms], of s i j] by auto
qed

lemma cells_window: "rect h w m \<Longrightarrow> cells m \<subseteq> window h w"
  by (auto simp: cells_def window_def cell_rect)

lemma cells_erosion:
  "rect h w m \<Longrightarrow> cells (binary_erosion ones33 m) = erode (cells m) \<inter> window h w"
  by (auto simp: cells_def erode_def window_def cell_erosion)

lemma cells_dilation:
  "rect h w m \<Longrightarrow> cells (binary_dilation ones33 m) = dilate (cells m) \<inter> window h w"
  by (auto simp: cells_def dilate_def window_def cell_dilation)

lemma rect_cells_eq:
  assumes "rect h w m" and "rect h w m'" and "cells m = cells m'"
  shows "m = m'"
proof (rule nth_equalityI)
  show "length m = length m'" using assms by (simp add: rect_def)
next
  fix i assume i: "i < length m"
  then have i': "i < length m'" "i < h" using assms by (simp_all add: rect_def)
  have l: "length (m ! i) = w" "length (m' ! i) = w"
    using assms i i' by (simp_all add: rect_def)
  show "m ! i = m' ! i"
  proof (rule nth_equalityI)
    show "length (m ! i) = length (m' ! i)" using l by simp
  next
    fix j assume "j < length (m ! i)"
    then have j: "j < w" using l by simp
    have "cell m (int i) (int j) = cell m' (int i) (int j)"
      using assms(3) by (auto simp: cells_def)
    then show "m ! i ! j = m' ! i ! j"
      using i' j by (simp add: cell_rect [OF assms(1)] cell_rect [OF assms(2)])
  qed
qed


lemma set_ones33: "set ones33 = {-1, 0, 1} \<times> {-1, 0, 1}"
  by (auto simp: ones33_def)

lemma erode_mono: "X \<subseteq> Y \<Longrightarrow> erode X \<subseteq> erode Y"
  unfolding erode_def by blast

lemma dilate_mono: "X \<subseteq> Y \<Longrightarrow> dilate X \<subseteq> dilate Y"
  unfolding dilate_def by blast

lemma erode_subset: "erode X \<subseteq> X"
proof
  fix p assume p: "p \<in> erode X"
  obtain i j where ij: "p = (i, j)" by (cases p)
  have "(0, 0) \<in> set ones33" by (simp add: set_ones33)
  then have "(i + 0, j + 0) \<in> X" using p ij unfolding erode_def by blast
  then show "p \<in> X" using ij by simp
qed

lemma dilate_erode_adjoint: "dilate X \<subseteq> Y \<longleftrightarrow> X \<subseteq> erode Y"
proof
  assume a: "dilate X \<subseteq> Y"
  show "X \<subseteq> erode Y"
  proof
    fix p assume p: "p \<in> X"
    obtain i j where ij: "p = (i, j)" by (cases p)
    have "(i + di, j + dj) \<in> Y" if d: "(di, dj) \<in> set ones33" for di dj
    proof -
      have "(i + di - di, j + dj - dj) \<in> X" using p ij by simp
      then have "(i + di, j + dj) \<in> dilate X" unfolding dilate_def using d by blast
      then show ?thesis using a by blast
    qed
    then show "p \<in> erode Y" using ij by (auto simp: erode_def)
  qed
next
  assume a: "X \<subseteq> erode Y"
  show "dilate X \<subseteq> Y"
  proof
    fix p assume p: "p \<in> dilate X"
    obtain i j where ij: "p = (i, j)" by (cases p)
    from p ij obtain di dj where d: "(di, dj) \<in> set ones33" and x: "(i - di, j - dj) \<in> X"
      unfolding dilate_def by blast
    have "(i - di, j - dj) \<in> erode Y" using x a by blast
    then have "(i - di + di, j - dj + dj) \<in> Y" unfolding erode_def using d by blast
    then show "p \<in> Y" using ij by simp
  qed
qed

lemma dilate_erode_subset: "dilate (erode X) \<subseteq> X"
  by (simp add: dilate_erode_adjoint)

lemma erode_dilate_superset: "X \<subseteq> erode (dilate X)"
  by (simp add: dilate_erode_adjoint [symmetric])

lemma erode_dilate_erode: "erode (dilate (erode X)) = erode X"
proof
  show "erode (dilate (erode X)) \<subseteq> erode X"
    by (rule erode_mono) (rule dilate_erode_subset)
  show "erode X \<subseteq> erode (dilate (erode X))"
    by (rule erode_dilate_superset)
qed

lemma dilate_erode_dilate: "dilate (erode (dilate X)) = dilate X"
proof
  show "dilate (erode (dilate X)) \<subseteq> dilate X"
    by (rule dilate_erode_subset)
  show "dilate X \<subseteq> dilate (erode (dilate X))"
    by (rule dilate_mono) (rule erode_dilate_superset)
qed

lemma open_close_idem: "open_close (open_close X) = open_close X"
proof
  let ?g = "dilate (erode X)"
  have "dilate (erode (erode (dilate ?g))) \<subseteq> erode (dilate ?g)"
    by (rule dilate_erode_subset)
  then have "erode (dilate (dilate (erode (erode (dilate ?g))))) \<subseteq> erode (dilate (erode (dilate ?g)))"
    by (rule erode_mono [OF dilate_mono])
  also have "\<dots> = erode (dilate ?g)" by (rule erode_dilate_erode)
  finally show "open_close (open_close X) \<subseteq> open_close X"
    by (simp add: open_close_def)
next
  let ?g = "dilate (erode X)"
  have "?g \<subseteq> erode (dilate ?g)" by (rule erode_dilate_superset)
  then have "dilate (erode ?g) \<subseteq> dilate (erode (erode (dilate ?g)))"
    by (rule dilate_mono [OF erode_mono])
  then have "?g \<subseteq> dilate (erode (erode (dilate ?g)))"
    by (simp only: dilate_erode_dilate)
  then have "erode (dilate ?g) \<subseteq> erode (dilate (dilate (erode (erode (dilate ?g)))))"
    by (rule erode_mono [OF dilate_mono])
  then show "open_close X \<subseteq> open_close (open_close X)"
    by (simp add: open_close_def)
qed

lemma cells_refine:
  assumes r: "rect h w m" and inner: "cells m \<subseteq> erode (window h w)"
  shows "cells (refine m) = open_close (cells m)"
    and "cells (refine m) \<subseteq> erode (window h w)"
proof -
  let ?X = "cells m" and ?W = "window h w"
  define me where "me = binary_erosion ones33 m"
  define mo where "mo = binary_dilation ones33 me"
  define md where "md = binary_dilation ones33 mo"
  have re: "rect h w me" unfolding me_def using r by (rule rect_erosion)
  have ro: "rect h w mo" unfolding mo_def using re by (rule rect_dilation)
  have rd: "rect h w md" unfolding md_def using ro by (rule rect_dilation)
  have XW: "?X \<subseteq> ?W" using r by (rule cells_window)
  have "erode ?X \<subseteq> ?W" using erode_subset XW by blast
  then have ce: "cells me = erode ?X"
    unfolding me_def cells_erosion [OF r] by blast
  have "dilate (erode ?X) \<subseteq> ?W" using dilate_erode_subset XW by blast
  then have co: "cells mo = dilate (erode ?X)"
    unfolding mo_def cells_dilation [OF re] ce by blast
  have "dilate (dilate (erode ?X)) \<subseteq> dilate ?X"
    by (rule dilate_mono) (rule dilate_erode_subset)
  also have "\<dots> \<subseteq> dilate (erode ?W)" using inner by (rule dilate_mono)
  also have "\<dots> \<subseteq> ?W" by (rule dilate_erode_subset)
  finally have cd: "cells md = dilate (dilate (erode ?X))"
    unfolding md_def cells_dilation [OF ro] co by blast
  have ref: "refine m = binary_erosion ones33 md"
    by (simp add: refine_def binary_closing_def binary_opening_def md_def mo_def me_def)
  have dW: "cells md \<subseteq> ?W" using rd by (rule cells_window)
  then have "erode (cells md) \<subseteq> ?W" using erode_subset by blast
  then have cr: "cells (refine m) = erode (cells md)"
    unfolding ref cells_erosion [OF rd] by blast
  show "cells (refine m) = open_close (cells m)"
    unfolding cr cd open_close_def ..
  show "cells (refine m) \<subseteq> erode ?W"
    unfolding cr using dW by (rule erode_mono)
qed

text \<open>
  The refiner is not idempotent on every mask. With \<^verbatim>\<open>border_value=0\<close> the erosion
  that ends the closing removes the true cells on the border of the array: the 3 by 3
  mask that is true everywhere is refined to its centre cell alone, and refining that
  gives the mask without any true cell.
\<close>

theorem refine_idempotent_counterexample:
  "refine (refine [[True, True, True], [True, True, True], [True, True, True]])
     \<noteq> refine [[True, True, True], [True, True, True], [True, True, True]]"
  by code_simp

text \<open>
  C5 (amended). For a rectangular mask whose true cells all lie off the outermost rows
  and columns, refining twice gives the same mask as refining once. There no dilation
  is cut at the array border, so the refiner is the opening followed by the closing of
  the unbounded grid, which is idempotent.
\<close>

theorem refine_idempotent_interior:
  assumes "\<forall>row \<in> set m. length row = w"
    and "\<forall>i < length m. \<forall>j < w. m ! i ! j \<longrightarrow> 0 < i \<and> i + 1 < length m \<and> 0 < j \<and> j + 1 < w"
  shows "refine (refine m) = refine m"
proof -
  let ?h = "length m"
  have r: "rect ?h w m" using assms(1) by (simp add: rect_def)
  have inner: "cells m \<subseteq> erode (window ?h w)"
  proof
    fix p assume p: "p \<in> cells m"
    obtain i j where ij: "p = (i, j)" by (cases p)
    have c: "0 \<le> i" "i < int ?h" "0 \<le> j" "j < int w" "m ! nat i ! nat j"
      using p ij cell_rect [OF r, of i j] by (simp_all add: cells_def)
    have "nat i < ?h" "nat j < w" using c by (simp_all add: nat_less_iff)
    then have "0 < nat i \<and> nat i + 1 < ?h \<and> 0 < nat j \<and> nat j + 1 < w"
      using assms(2) c(5) by blast
    then have b: "0 < i" "i + 1 < int ?h" "0 < j" "j + 1 < int w"
      using c by linarith+
    have "(i + di, j + dj) \<in> window ?h w" if "(di, dj) \<in> set ones33" for di dj
      using that b by (auto simp: set_ones33 window_def)
    then show "p \<in> erode (window ?h w)" using ij by (auto simp: erode_def)
  qed
  have r': "rect ?h w (refine m)" using r by (rule rect_refine)
  have "cells (refine (refine m)) = open_close (cells (refine m))"
    using r' cells_refine(2) [OF r inner] by (rule cells_refine(1))
  also have "\<dots> = open_close (open_close (cells m))"
    by (simp only: cells_refine(1) [OF r inner])
  also have "\<dots> = open_close (cells m)" by (rule open_close_idem)
  also have "\<dots> = cells (refine m)" by (simp only: cells_refine(1) [OF r inner])
  finally show ?thesis
    using rect_cells_eq [OF rect_refine [OF r'] r'] by blast
qed


theorem refine_idempotent_interior_witness:
  "refine (refine [[False, False, False, False, False],
                   [False, True, True, True, False],
                   [False, True, True, True, False],
                   [False, True, True, True, False],
                   [False, False, False, False, False]])
   = refine [[False, False, False, False, False],
             [False, True, True, True, False],
             [False, True, True, True, False],
             [False, True, True, True, False],
             [False, False, False, False, False]]"
proof -
  let ?m = "[[False, False, False, False, False],
             [False, True, True, True, False],
             [False, True, True, True, False],
             [False, True, True, True, False],
             [False, False, False, False, False]]"
  have h1: "\<forall>row \<in> set ?m. length row = 5" by simp
  have c: "\<forall>i \<in> set [0..<length ?m]. \<forall>j \<in> set [0..<5].
          ?m ! i ! j \<longrightarrow> 0 < i \<and> i + 1 < length ?m \<and> 0 < j \<and> j + 1 < 5"
    by code_simp
  have h2: "\<forall>i < length ?m. \<forall>j < 5.
          ?m ! i ! j \<longrightarrow> 0 < i \<and> i + 1 < length ?m \<and> 0 < j \<and> j + 1 < 5"
  proof (intro allI impI)
    fix i j :: nat
    assume i: "i < length ?m" and j: "j < 5" and v: "?m ! i ! j"
    have "i \<in> set [0..<length ?m]" using i by (simp only: set_upt atLeastLessThan_iff) simp
    moreover have "j \<in> set [0..<5]" using j by (simp only: set_upt atLeastLessThan_iff) simp
    ultimately show "0 < i \<and> i + 1 < length ?m \<and> 0 < j \<and> j + 1 < 5"
      using c v by blast
  qed
  from refine_idempotent_interior [OF h1 h2] show ?thesis .
qed

section \<open>Bounding box of an empty mask: theorems\<close>

lemma no_true_cell:
  assumes "no_true m"
  shows "\<not> cell m i j"
proof
  assume c: "cell m i j"
  then have i: "nat i < length m" and j: "nat j < length (m ! nat i)" and v: "m ! nat i ! nat j"
    by (simp_all add: cell_def nat_less_iff)
  have "m ! nat i \<in> set m" using i by simp
  moreover have "m ! nat i ! nat j \<in> set (m ! nat i)" using j by simp
  ultimately show False using assms v unfolding no_true_def by blast
qed

lemma no_true_erosion:
  assumes "no_true m" and "s \<noteq> []"
  shows "no_true (binary_erosion s m)"
proof -
  have "\<not> list_all (\<lambda>(di, dj). cell m (int i + di) (int j + dj)) s" for i j
    using assms(2) no_true_cell [OF assms(1)] by (cases s) auto
  then show ?thesis by (auto simp: no_true_def binary_erosion_def)
qed

lemma no_true_dilation:
  assumes "no_true m"
  shows "no_true (binary_dilation s m)"
proof -
  have "\<not> list_ex (\<lambda>(di, dj). cell m (int i - di) (int j - dj)) s" for i j
    using no_true_cell [OF assms] by (auto simp: list_ex_iff)
  then show ?thesis by (auto simp: no_true_def binary_dilation_def)
qed

lemma no_true_refine: "no_true m \<Longrightarrow> no_true (refine m)"
  by (simp add: refine_def binary_closing_def binary_opening_def no_true_erosion
      no_true_dilation ones33_def)

lemma bounding_box_no_true:
  assumes "no_true m"
  shows "bounding_box m = Inl IndexError"
proof -
  have "\<not> list_ex (\<lambda>b. b) row" if "row \<in> set m" for row
    using assms that by (auto simp: no_true_def list_ex_iff)
  then have "\<not> any_axis1 m ! i" if "i < length (any_axis1 m)" for i
    using that by (simp add: any_axis1_def)
  then have "np_where1 (any_axis1 m) = []"
    by (simp add: np_where1_def filter_empty_conv)
  then show ?thesis by (simp add: bounding_box_def first_last_def)
qed

lemma classify_white_no_true:
  assumes "\<forall>row \<in> set img. \<forall>p \<in> set row. colour_of p = (255, 255, 255)"
  shows "no_true (classify white threshold img)"
proof -
  have "\<not> color_distance white p > threshold" if "colour_of p = (255, 255, 255)" for p
    using that by (simp add: white_def threshold_def color_distance_euclidean euclidean_distance_def)
  then show ?thesis using assms by (auto simp: no_true_def classify_def)
qed

lemma np_where2_empty:
  assumes "\<forall>row \<in> set a. \<forall>b \<in> set row. \<not> b"
  shows "np_where2 a = []"
proof -
  have "\<not> a ! i ! j" if "i < length a" "j < length (a ! i)" for i j
    using assms that by (meson nth_mem)
  then have "set (np_where2 a) = {}" by (auto simp: set_np_where2)
  then show ?thesis by simp
qed

lemma empty_mask_outcomes:
  "((\<forall>row \<in> set m. \<forall>b \<in> set row. \<not> b) \<longrightarrow> bounding_box m = Inl IndexError)
   \<and> ((\<forall>row \<in> set (refine (classify white threshold img)). \<forall>b \<in> set row. \<not> b)
        \<longrightarrow> extract_logo_advanced no_bg img = Inl IndexError)
   \<and> ((\<forall>row \<in> set img. \<forall>p \<in> set row. colour_of p = (255, 255, 255))
        \<longrightarrow> extract_logo_advanced no_bg img = Inl IndexError)
   \<and> ((\<forall>row \<in> set img. \<forall>p \<in> set row. \<not> gray p < 250)
        \<longrightarrow> extract_logo_with_text img = Inr (NoOutput ''No content found in image''))"
proof (intro conjI impI)
  assume "\<forall>row \<in> set m. \<forall>b \<in> set row. \<not> b"
  then show "bounding_box m = Inl IndexError"
    by (intro bounding_box_no_true) (simp add: no_true_def)
next
  assume "\<forall>row \<in> set (refine (classify white threshold img)). \<forall>b \<in> set row. \<not> b"
  then have "bounding_box (refine (classify white threshold img)) = Inl IndexError"
    by (intro bounding_box_no_true) (simp add: no_true_def)
  then show "extract_logo_advanced no_bg img = Inl IndexError"
    by (simp add: extract_logo_advanced_def)
next
  assume "\<forall>row \<in> set img. \<forall>p \<in> set row. colour_of p = (255, 255, 255)"
  then have "no_true (refine (classify white threshold img))"
    by (intro no_true_refine classify_white_no_true)
  then have "bounding_box (refine (classify white threshold img)) = Inl IndexError"
    by (rule bounding_box_no_true)
  then show "extract_logo_advanced no_bg img = Inl IndexError"
    by (simp add: extract_logo_advanced_def)
next
  assume "\<forall>row \<in> set img. \<forall>p \<in> set row. \<not> gray p < 250"
  then have "non_white_pixels img = []"
    unfolding non_white_pixels_def by (intro np_where2_empty) simp
  then show "extract_logo_with_text img = Inr (NoOutput ''No content found in image'')"
    by (simp add: extract_logo_with_text_def)
qed

text \<open>
  C4. A mask without any true cell makes the bounding-box extraction fail: indexing the
  empty index array raises IndexError, the error the specification calls
  EmptyMaskError. The specification has the caller handle it, by falling back to the
  full image or by stopping with a clear message. extract-logo-with-text does: it
  guards the empty case and prints that no content was found. extract-logo-advanced
  does not: on an image that is white everywhere the error leaves the script as it was
  raised, with no guard, no fallback and no message of the script. Neither script
  produces an image there.
\<close>

theorem empty_mask_unhandled:
  "bounding_box [[False, False], [False, False]] = Inl IndexError
   \<and> extract_logo_advanced scipy_no_bg
         [[mk_pixel 255 255 255 255, mk_pixel 255 255 255 255],
          [mk_pixel 255 255 255 255, mk_pixel 255 255 255 255]]
       = Inl IndexError
   \<and> extract_logo_with_text
         [[mk_pixel 255 255 255 255, mk_pixel 255 255 255 255],
          [mk_pixel 255 255 255 255, mk_pixel 255 255 255 255]]
       = Inr (NoOutput ''No content found in image'')"
proof -
  let ?m = "[[False, False], [False, False]]"
  let ?img = "[[mk_pixel 255 255 255 255, mk_pixel 255 255 255 255],
               [mk_pixel 255 255 255 255, mk_pixel 255 255 255 255]]"
  have h1: "\<forall>row \<in> set ?m. \<forall>b \<in> set row. \<not> b" by simp
  have h2: "\<forall>row \<in> set ?img. \<forall>p \<in> set row. colour_of p = (255, 255, 255)"
    by (simp add: colour_of_def mk_pixel_def)
  have h3: "\<forall>row \<in> set ?img. \<forall>p \<in> set row. \<not> gray p < 250"
    by (simp add: gray_def rgb_def mk_pixel_def)
  from empty_mask_outcomes [of ?m ?img scipy_no_bg] h1 h2 h3 show ?thesis by blast
qed
section \<open>Alpha compositor, soft edge: theorems\<close>

subsection \<open>The cropped mask of the scenario\<close>


















subsection \<open>The alpha values\<close>








end
